theory Spec2Isabelle
  imports Main "HOL-Library.Word" "HOL-Library.Multiset"
begin

unbundle bit_operations_syntax

section \<open>The rc4\_decrypt kernel\<close>

text \<open>
  Bytes (\<open>uchar\<close>, \<open>unsigned char\<close>, and the bit patterns of \<open>char\<close>) are 8-bit
  words. The kernel's \<open>int\<close> cursors \<open>i\<close>, \<open>j\<close> and loop counters never leave
  \<open>0..255\<close> resp. \<open>0..gid\<close>, so they are natural numbers with the source's
  \<open>% 256\<close> written out.
\<close>

type_synonym u8 = "8 word"

text \<open>\<open>uchar temp = S[a]; S[a] = S[b]; S[b] = temp;\<close>\<close>

definition swap_entries :: "u8 list \<Rightarrow> nat \<Rightarrow> nat \<Rightarrow> u8 list" where
  "swap_entries S a b = S[a := S ! b, b := S ! a]"

text \<open>\<open>for (int k = 0; k < 256; k++) S[k] = k;\<close>\<close>

definition identity_table :: "u8 list" where
  "identity_table = map of_nat [0..<256]"

text \<open>
  The key-scheduling loop (lines 25-30), from counter \<open>k\<close> with cursor \<open>j\<close>.
  \<open>key_length\<close> is the kernel argument; the host always passes the length of
  \<open>keys\<close>, which is at least 1.
\<close>

function ksa_loop :: "u8 list \<Rightarrow> nat \<Rightarrow> nat \<Rightarrow> nat \<Rightarrow> u8 list \<Rightarrow> nat \<times> u8 list" where
  "ksa_loop keys key_length k j S =
     (if k < 256 then
        (let j' = (j + unat (S ! k) + unat (keys ! (k mod key_length))) mod 256
         in ksa_loop keys key_length (k + 1) j' (swap_entries S k j'))
      else (j, S))"
  by pat_completeness auto
termination
  by (relation "measure (\<lambda>(keys, key_length, k, j, S). 256 - k)") auto

text \<open>The cursor-advance loop (lines 32-38): \<open>for (int n = 0; n < gid; n++)\<close>.\<close>

function prga_loop :: "nat \<Rightarrow> nat \<Rightarrow> nat \<Rightarrow> nat \<Rightarrow> u8 list \<Rightarrow> nat \<times> nat \<times> u8 list" where
  "prga_loop gid n i j S =
     (if n < gid then
        (let i' = (i + 1) mod 256;
             j' = (j + unat (S ! i')) mod 256
         in prga_loop gid (n + 1) i' j' (swap_entries S i' j'))
      else (i, j, S))"
  by pat_completeness auto
termination
  by (relation "measure (\<lambda>(gid, n, i, j, S). gid - n)") auto

text \<open>
  The keystream byte of work item \<open>gid\<close>: lines 20-38, then the table entry
  \<open>S[(S[i] + S[j]) % 256]\<close> of line 39.
\<close>

definition kernel_keystream :: "u8 list \<Rightarrow> nat \<Rightarrow> nat \<Rightarrow> u8" where
  "kernel_keystream keys key_length gid =
     (case ksa_loop keys key_length 0 0 identity_table of (j0, S0) \<Rightarrow>
        (case prga_loop gid 0 0 0 S0 of (i, j, S) \<Rightarrow>
           S ! ((unat (S ! i) + unat (S ! j)) mod 256)))"

text \<open>
  A table is a permutation of \<open>0..255\<close> when it has 256 entries and every byte
  value occurs in it exactly once.
\<close>

definition permutation_table :: "u8 list \<Rightarrow> bool" where
  "permutation_table S \<longleftrightarrow> length S = 256 \<and> (\<forall>v. count_list S v = 1)"

text \<open>
  \<open>int gid = get_global_id(0)\<close> and the host's
  \<open>clSetKernelArg(kernel, 4, sizeof(int), &data_length)\<close> both squeeze a
  \<open>size_t\<close> into a 32-bit \<open>int\<close>: the low four bytes, read as two's complement
  (little-endian host).
\<close>

definition int_of_size_t :: "nat \<Rightarrow> int" where
  "int_of_size_t n = sint (word_of_nat n :: 32 word)"

text \<open>
  One work item of the kernel (lines 18-40), returning the output buffer. Where the
  source has no defined behaviour (a \<open>key_length\<close> of 0 divides by zero, a global
  id or length of \<open>2^31\<close> or more does not fit the \<open>int\<close>) the model's value
  means nothing; the theorems below are stated for keys of length at least 1 and
  buffers shorter than \<open>2^31\<close> bytes.
\<close>

definition rc4_decrypt :: "u8 list \<Rightarrow> u8 list \<Rightarrow> u8 list \<Rightarrow> int \<Rightarrow> int \<Rightarrow> nat \<Rightarrow> u8 list" where
  "rc4_decrypt encrypted_data decrypted_data keys key_length data_length global_id =
     (let gid = int_of_size_t global_id in
      if gid < data_length then
        decrypted_data[nat gid :=
          (encrypted_data ! nat gid) XOR kernel_keystream keys (nat key_length) (nat gid)]
      else decrypted_data)"

text \<open>
  \<open>clEnqueueNDRangeKernel\<close> with a one-dimensional range: one work item per global
  id below \<open>global_work_size\<close>. Each work item writes its own cell only, so the
  order in which they run does not show; they are folded in ascending order.
\<close>

definition run_kernel :: "u8 list \<Rightarrow> u8 list \<Rightarrow> u8 list \<Rightarrow> int \<Rightarrow> int \<Rightarrow> nat \<Rightarrow> u8 list" where
  "run_kernel encrypted_data decrypted_data keys key_length data_length global_work_size =
     fold (\<lambda>g d. rc4_decrypt encrypted_data d keys key_length data_length g)
          [0..<global_work_size] decrypted_data"

section \<open>The plaintext validator\<close>

text \<open>
  \<open>isprint\<close> and \<open>isspace\<close> of the C library, in the "C" locale (the program
  never calls \<open>setlocale\<close>), on an \<open>unsigned char\<close> argument.
\<close>

definition isprint :: "u8 \<Rightarrow> bool" where
  "isprint c \<longleftrightarrow> 0x20 \<le> c \<and> c \<le> 0x7E"

definition isspace :: "u8 \<Rightarrow> bool" where
  "isspace c \<longleftrightarrow> c = 0x20 \<or> (0x09 \<le> c \<and> c \<le> 0x0D)"

text \<open>\<open>std::all_of\<close>: the first element that fails the predicate ends the scan.\<close>

fun all_of :: "('a \<Rightarrow> bool) \<Rightarrow> 'a list \<Rightarrow> bool" where
  "all_of p [] = True"
| "all_of p (x # xs) = (if p x then all_of p xs else False)"

definition is_valid_plaintext :: "u8 list \<Rightarrow> bool" where
  "is_valid_plaintext data = all_of (\<lambda>c. isprint c \<or> isspace c) data"

section \<open>Key enumeration\<close>

text \<open>
  \<open>std::next_permutation\<close> over a range compared with \<open>lt\<close>: find the last
  position \<open>i\<close> with \<open>xs[i] < xs[i+1]\<close>; if there is none, reverse the whole
  range and return false; otherwise swap \<open>xs[i]\<close> with the last element greater
  than it, reverse the tail behind \<open>i\<close> and return true.
\<close>

fun find_pivot :: "('a \<Rightarrow> 'a \<Rightarrow> bool) \<Rightarrow> 'a list \<Rightarrow> nat \<Rightarrow> nat option" where
  "find_pivot lt xs 0 = None"
| "find_pivot lt xs (Suc i) =
     (if lt (xs ! i) (xs ! Suc i) then Some i else find_pivot lt xs i)"

fun find_successor :: "('a \<Rightarrow> 'a \<Rightarrow> bool) \<Rightarrow> 'a list \<Rightarrow> nat \<Rightarrow> nat \<Rightarrow> nat" where
  "find_successor lt xs i 0 = 0"
| "find_successor lt xs i (Suc j) =
     (if lt (xs ! i) (xs ! Suc j) then Suc j else find_successor lt xs i j)"

definition next_permutation :: "('a \<Rightarrow> 'a \<Rightarrow> bool) \<Rightarrow> 'a list \<Rightarrow> bool \<times> 'a list" where
  "next_permutation lt xs =
     (case find_pivot lt xs (length xs - 1) of
        None \<Rightarrow> (False, rev xs)
      | Some i \<Rightarrow>
          (let j = find_successor lt xs i (length xs - 1);
               ys = xs[i := xs ! j, j := xs ! i]
           in (True, take (Suc i) ys @ rev (drop (Suc i) ys))))"

text \<open>
  \<open>operator<\<close> on the \<open>char\<close>s of a \<open>std::string\<close>; \<open>char\<close> is signed on the
  usual targets.
\<close>

definition char_less :: "u8 \<Rightarrow> u8 \<Rightarrow> bool" where
  "char_less a b \<longleftrightarrow> sint a < sint b"

text \<open>
  \<open>charset[0]\<close>: for an empty \<open>std::string\<close> the index \<open>size()\<close> is the
  terminating null character.
\<close>

definition charset_front :: "u8 list \<Rightarrow> u8" where
  "charset_front charset = (case charset of [] \<Rightarrow> 0 | c # _ \<Rightarrow> c)"

section \<open>The search loops\<close>

datatype exn = Runtime_error string

text \<open>
  How one pass through a loop body ends: by a \<open>throw\<close>, by \<open>return\<close>, or by
  falling through to the loop condition.
\<close>

datatype 's step = Throw exn 's | Return "u8 list" 's | Continue 's

text \<open>
  The \<open>do { ... } while (std::next_permutation(key_str.begin(), key_str.end()))\<close>
  loop of lines 131-172 around a body. Nothing in its text bounds the number of
  rounds, so it is a partial function: \<open>None\<close> stands for not returning.
\<close>

partial_function (option) key_loop ::
    "(u8 list \<Rightarrow> 's \<Rightarrow> 's step) \<Rightarrow> u8 list \<Rightarrow> 's \<Rightarrow> 's step option" where
  "key_loop body key_str s =
     (case body key_str s of
        Throw x s' \<Rightarrow> Some (Throw x s')
      | Return d s' \<Rightarrow> Some (Return d s')
      | Continue s' \<Rightarrow>
          (case next_permutation char_less key_str of
             (more, key_str') \<Rightarrow>
               if more then key_loop body key_str' s' else Some (Continue s')))"

declare key_loop.simps [code]

text \<open>
  The \<open>for (int key_length = 1; key_length <= max_key_length; ++key_length)\<close> loop
  of lines 127-173, entered at \<open>key_length\<close>; \<open>key_str\<close> starts as \<open>key_length\<close>
  copies of \<open>charset[0]\<close>.
\<close>

function length_loop ::
    "(int \<Rightarrow> u8 list \<Rightarrow> 's \<Rightarrow> 's step) \<Rightarrow> u8 list \<Rightarrow> int \<Rightarrow> int \<Rightarrow> 's \<Rightarrow> 's step option" where
  "length_loop body charset max_key_length key_length s =
     (if key_length \<le> max_key_length then
        (case key_loop (body key_length)
                (replicate (nat key_length) (charset_front charset)) s of
           None \<Rightarrow> None
         | Some (Throw x s') \<Rightarrow> Some (Throw x s')
         | Some (Return d s') \<Rightarrow> Some (Return d s')
         | Some (Continue s') \<Rightarrow>
             length_loop body charset max_key_length (key_length + 1) s')
      else Some (Continue s))"
  by pat_completeness auto
termination
  by (relation "measure (\<lambda>(body, charset, max_key_length, key_length, s).
        nat (max_key_length + 1 - key_length))") auto

text \<open>
  The keys the two loops step through when every body falls through: the loops
  around a body that only notes its key.
\<close>

definition key_sequence :: "u8 list \<Rightarrow> int \<Rightarrow> u8 list list step option" where
  "key_sequence charset max_key_length =
     length_loop (\<lambda>key_length key_str ks. Continue (ks @ [key_str])) charset max_key_length 1 []"

section \<open>The compute backend and the search\<close>

text \<open>
  OpenCL is outside the repository. Each call the search checks is named, and the
  error code it reports is a parameter of the model. \<open>err |= ...\<close> is bitwise on
  the 32-bit \<open>cl_int\<close>.
\<close>

type_synonym cl_int = "32 word"

definition CL_SUCCESS :: cl_int where
  "CL_SUCCESS = 0"

datatype cl_call =
    GetPlatformIDs | GetDeviceIDs | CreateContext | CreateCommandQueue
  | CreateProgramWithSource | BuildProgram | CreateKernel
  | CreateBuffer_encrypted | CreateBuffer_decrypted
  | CreateBuffer_keys | SetKernelArg nat | EnqueueNDRangeKernel | EnqueueReadBuffer

text \<open>
  What the function does to the world, in order: the OpenCL calls it issues and the
  lines it prints. The per-attempt calls carry the number of their attempt, which
  also names the attempt's \<open>keys_buffer\<close>. \<open>Cout_time\<close> is the
  \<open>"Time taken: "\<close> line with the elapsed clock ticks.
\<close>

datatype event =
    Setup_call cl_call
  | Create_keys nat "u8 list"
  | Set_arg nat nat
  | Enqueue nat nat
  | Read_back nat
  | Release_keys nat
  | Cout_text string
  | Cout_key string "u8 list"
  | Cout_time int
  | Cerr_code string cl_int
  | Cerr_build_log

text \<open>
  The environment of one run: the error code of every setup call and of every call
  of the \<open>n\<close>-th attempt, the bytes found in the freshly created
  (\<open>CL_MEM_WRITE_ONLY\<close>, never initialised) output buffer, and the two readings of
  the clock (before the loops, and where the run ends).
\<close>

record env =
  cl_setup :: "cl_call \<Rightarrow> cl_int"
  cl_attempt :: "nat \<Rightarrow> cl_call \<Rightarrow> cl_int"
  fresh_memory :: "nat \<Rightarrow> u8"
  start_time :: int
  end_time :: int

text \<open>
  The host's state inside the loops: what has happened so far, the device's
  \<open>decrypted_data_buffer\<close>, the host vector \<open>decrypted_data\<close>, and the number
  of loop bodies entered.
\<close>

record host =
  events :: "event list"
  device_out :: "u8 list"
  decrypted_data :: "u8 list"
  attempts :: nat

definition emit :: "event list \<Rightarrow> host \<Rightarrow> host" where
  "emit es h = h\<lparr>events := events h @ es\<rparr>"

text \<open>
  The kernel launch of one attempt: arguments 3 and 4 are \<open>key_length\<close> and the
  low half of \<open>data_length\<close>, the range is \<open>data_length\<close> work items.
\<close>

definition dispatch :: "u8 list \<Rightarrow> u8 list \<Rightarrow> u8 list \<Rightarrow> int \<Rightarrow> u8 list" where
  "dispatch encrypted_data device keys key_length =
     run_kernel encrypted_data device keys key_length
       (int_of_size_t (length encrypted_data)) (length encrypted_data)"

text \<open>The body of the do-while loop, lines 132-171.\<close>

definition attempt :: "env \<Rightarrow> u8 list \<Rightarrow> int \<Rightarrow> u8 list \<Rightarrow> host \<Rightarrow> host step" where
  "attempt w encrypted_data key_length key_str h0 =
     (let n = attempts h0;
          keys = key_str;
          data_length = length encrypted_data;
          h1 = emit [Create_keys n keys] (h0\<lparr>attempts := n + 1\<rparr>);
          err = cl_attempt w n CreateBuffer_keys
      in
      if err \<noteq> CL_SUCCESS then
        Throw (Runtime_error ''OpenCL buffer creation error'')
          (emit [Cerr_code ''Failed to create keys buffer. Error code: '' err] h1)
      else
      let h2 = emit [Set_arg n 0, Set_arg n 1, Set_arg n 2, Set_arg n 3, Set_arg n 4] h1;
          err = cl_attempt w n (SetKernelArg 0) OR cl_attempt w n (SetKernelArg 1)
                OR cl_attempt w n (SetKernelArg 2) OR cl_attempt w n (SetKernelArg 3)
                OR cl_attempt w n (SetKernelArg 4)
      in
      if err \<noteq> CL_SUCCESS then
        Throw (Runtime_error ''OpenCL kernel argument setting error'')
          (emit [Cerr_code ''Failed to set OpenCL kernel arguments. Error code: '' err] h2)
      else
      let global_work_size = data_length;
          h3 = emit [Enqueue n global_work_size] h2;
          err = cl_attempt w n EnqueueNDRangeKernel
      in
      if err \<noteq> CL_SUCCESS then
        Throw (Runtime_error ''OpenCL kernel enqueue error'')
          (emit [Cerr_code ''Failed to enqueue OpenCL kernel. Error code: '' err] h3)
      else
      let h4 = emit [Read_back n]
                 (h3\<lparr>device_out := dispatch encrypted_data (device_out h3) keys key_length\<rparr>);
          err = cl_attempt w n EnqueueReadBuffer
      in
      if err \<noteq> CL_SUCCESS then
        Throw (Runtime_error ''OpenCL buffer read error'')
          (emit [Cerr_code ''Failed to read buffer from OpenCL kernel. Error code: '' err] h4)
      else
      let h5 = h4\<lparr>decrypted_data := device_out h4\<rparr> in
      if is_valid_plaintext (decrypted_data h5) then
        Return (decrypted_data h5)
          (emit [Cout_key ''Decryption successful, key found: '' key_str,
                 Cout_time (end_time w - start_time w)] h5)
      else Continue (emit [Release_keys n] h5))"

text \<open>
  Lines 63-122: nine calls, each checked; a failure prints its line on
  \<open>std::cerr\<close> and throws.
\<close>

definition setup_steps :: "(cl_call \<times> (cl_int \<Rightarrow> event) \<times> string) list" where
  "setup_steps =
     [(GetPlatformIDs, Cerr_code ''Failed to get OpenCL platform IDs. Error code: '',
         ''OpenCL initialization error''),
      (GetDeviceIDs, Cerr_code ''Failed to get OpenCL device IDs. Error code: '',
         ''OpenCL initialization error''),
      (CreateContext, Cerr_code ''Failed to create OpenCL context. Error code: '',
         ''OpenCL context creation error''),
      (CreateCommandQueue, Cerr_code ''Failed to create OpenCL command queue. Error code: '',
         ''OpenCL command queue creation error''),
      (CreateProgramWithSource, Cerr_code ''Failed to create OpenCL program. Error code: '',
         ''OpenCL program creation error''),
      (BuildProgram, \<lambda>err. Cerr_build_log, ''OpenCL program build error''),
      (CreateKernel, Cerr_code ''Failed to create OpenCL kernel. Error code: '',
         ''OpenCL kernel creation error''),
      (CreateBuffer_encrypted, Cerr_code ''Failed to create encrypted data buffer. Error code: '',
         ''OpenCL buffer creation error''),
      (CreateBuffer_decrypted, Cerr_code ''Failed to create decrypted data buffer. Error code: '',
         ''OpenCL buffer creation error'')]"

fun run_setup ::
    "env \<Rightarrow> (cl_call \<times> (cl_int \<Rightarrow> event) \<times> string) list \<Rightarrow> event list
       \<Rightarrow> (exn \<times> event list) + event list" where
  "run_setup w [] es = Inr es"
| "run_setup w ((c, report, what) # steps) es =
     (if cl_setup w c \<noteq> CL_SUCCESS
      then Inl (Runtime_error what, es @ [Setup_call c, report (cl_setup w c)])
      else run_setup w steps (es @ [Setup_call c]))"

text \<open>What a run leaves behind: the value returned or the exception thrown, and the events.\<close>

record outcome =
  ret :: "exn + u8 list"
  trace :: "event list"

definition brute_force_rc4_gpu :: "env \<Rightarrow> u8 list \<Rightarrow> u8 list \<Rightarrow> int \<Rightarrow> outcome option" where
  "brute_force_rc4_gpu w encrypted_data charset max_key_length =
     (case run_setup w setup_steps [] of
        Inl (x, es) \<Rightarrow> Some \<lparr>ret = Inl x, trace = es\<rparr>
      | Inr es \<Rightarrow>
          (let data_length = length encrypted_data;
               h = \<lparr>events = es,
                    device_out = map (fresh_memory w) [0..<data_length],
                    decrypted_data = replicate data_length 0,
                    attempts = 0\<rparr>
           in case length_loop (attempt w encrypted_data) charset max_key_length 1 h of
                None \<Rightarrow> None
              | Some (Throw x h') \<Rightarrow> Some \<lparr>ret = Inl x, trace = events h'\<rparr>
              | Some (Return d h') \<Rightarrow> Some \<lparr>ret = Inr d, trace = events h'\<rparr>
              | Some (Continue h') \<Rightarrow>
                  Some \<lparr>ret = Inr [],
                        trace = events h' @ [Cout_text ''No valid key found'',
                                             Cout_time (end_time w - start_time w)]\<rparr>))"

text \<open>The keys handed to the backend, in order, read off the events.\<close>

fun dispatched :: "event list \<Rightarrow> u8 list list" where
  "dispatched [] = []"
| "dispatched (Create_keys n k # es) = k # dispatched es"
| "dispatched (e # es) = dispatched es"

section \<open>Notions used in the statements\<close>

text \<open>
  The buffer an attempt with key \<open>keys\<close> computes from \<open>data\<close>: byte \<open>p\<close> is
  \<open>data[p]\<close> xor the kernel's keystream byte of work item \<open>p\<close>.
\<close>

definition keystream_xor :: "u8 list \<Rightarrow> u8 list \<Rightarrow> u8 list" where
  "keystream_xor keys data =
     map (\<lambda>p. (data ! p) XOR kernel_keystream keys (length keys) p) [0..<length data]"

text \<open>Every checked call of the setup, resp. of attempt \<open>n\<close>, reports \<open>CL_SUCCESS\<close>.\<close>

definition setup_ok :: "env \<Rightarrow> bool" where
  "setup_ok w \<longleftrightarrow> list_all (\<lambda>c. cl_setup w c = CL_SUCCESS)
     [GetPlatformIDs, GetDeviceIDs, CreateContext, CreateCommandQueue,
      CreateProgramWithSource, BuildProgram, CreateKernel,
      CreateBuffer_encrypted, CreateBuffer_decrypted]"

definition attempt_ok :: "env \<Rightarrow> nat \<Rightarrow> bool" where
  "attempt_ok w n \<longleftrightarrow> list_all (\<lambda>c. cl_attempt w n c = CL_SUCCESS)
     [CreateBuffer_keys, SetKernelArg 0, SetKernelArg 1, SetKernelArg 2,
      SetKernelArg 3, SetKernelArg 4, EnqueueNDRangeKernel, EnqueueReadBuffer]"

text \<open>
  The serial reference generator of the specification (sections 4.1 and 8): the
  same key scheduling, then for each output byte in turn one cursor advance
  (\<open>i = (i + 1) mod 256\<close>, \<open>j = (j + S[i]) mod 256\<close>, swap \<open>S[i]\<close> and \<open>S[j]\<close>)
  followed by emitting \<open>S[(S[i] + S[j]) mod 256]\<close>; byte \<open>p\<close> is emitted after
  \<open>p + 1\<close> advances.
\<close>

definition reference_advance :: "nat \<times> nat \<times> u8 list \<Rightarrow> nat \<times> nat \<times> u8 list" where
  "reference_advance st =
     (case st of (i, j, S) \<Rightarrow>
        (let i' = (i + 1) mod 256;
             j' = (j + unat (S ! i')) mod 256
         in (i', j', swap_entries S i' j')))"

definition reference_emit :: "nat \<times> nat \<times> u8 list \<Rightarrow> u8" where
  "reference_emit st =
     (case st of (i, j, S) \<Rightarrow> S ! ((unat (S ! i) + unat (S ! j)) mod 256))"

fun reference_stream :: "nat \<Rightarrow> nat \<times> nat \<times> u8 list \<Rightarrow> u8 list" where
  "reference_stream 0 st = []"
| "reference_stream (Suc n) st =
     (let st' = reference_advance st in reference_emit st' # reference_stream n st')"

definition reference_keystream :: "u8 list \<Rightarrow> nat \<Rightarrow> u8 list" where
  "reference_keystream keys n =
     reference_stream n (0, 0, snd (ksa_loop keys (length keys) 0 0 identity_table))"

text \<open>
  Encryption as the specification has it (section 8): the plaintext xor the
  reference keystream of the key.
\<close>

definition reference_encrypt :: "u8 list \<Rightarrow> u8 list \<Rightarrow> u8 list" where
  "reference_encrypt keys data =
     map (\<lambda>(d, k). d XOR k) (zip data (reference_keystream keys (length data)))"

text \<open>The host's state when the loops are entered, after a setup without failure.\<close>

definition initial_host :: "env \<Rightarrow> u8 list \<Rightarrow> host" where
  "initial_host w enc =
     \<lparr>events = map (\<lambda>(c, r, m). Setup_call c) setup_steps,
      device_out = map (fresh_memory w) [0..<length enc],
      decrypted_data = replicate (length enc) 0,
      attempts = 0\<rparr>"

fun host_of :: "host step \<Rightarrow> host" where
  "host_of (Throw x h) = h"
| "host_of (Return d h) = h"
| "host_of (Continue h) = h"

text \<open>
  Two environments for the examples: one where every call succeeds, and one where
  every \<open>clEnqueueNDRangeKernel\<close> reports \<open>-5\<close> (\<open>CL_OUT_OF_RESOURCES\<close>).
\<close>

definition working_env :: env where
  "working_env = \<lparr>cl_setup = (\<lambda>c. CL_SUCCESS), cl_attempt = (\<lambda>n c. CL_SUCCESS),
     fresh_memory = (\<lambda>p. 0), start_time = 0, end_time = 1\<rparr>"

definition enqueue_failing_env :: env where
  "enqueue_failing_env = \<lparr>cl_setup = (\<lambda>c. CL_SUCCESS),
     cl_attempt = (\<lambda>n c. if c = EnqueueNDRangeKernel then - 5 else CL_SUCCESS),
     fresh_memory = (\<lambda>p. 0), start_time = 0, end_time = 1\<rparr>"

text \<open>
  An environment whose \<open>clCreateBuffer\<close> refuses the zero-size buffer of an empty
  ciphertext with \<open>CL_INVALID_BUFFER_SIZE\<close> (\<open>-61\<close>), as the OpenCL
  specification prescribes for a size of 0; every other call succeeds.
\<close>

definition CL_INVALID_BUFFER_SIZE :: cl_int where
  "CL_INVALID_BUFFER_SIZE = - 61"

definition zero_size_refusing_env :: env where
  "zero_size_refusing_env = \<lparr>
     cl_setup = (\<lambda>c. if c = CreateBuffer_encrypted then CL_INVALID_BUFFER_SIZE
                      else CL_SUCCESS),
     cl_attempt = (\<lambda>n c. CL_SUCCESS),
     fresh_memory = (\<lambda>p. 0), start_time = 0, end_time = 1\<rparr>"

section \<open>The validator accepts exactly the printable and whitespace buffers\<close>

lemma all_of_iff: "all_of p xs \<longleftrightarrow> (\<forall>x\<in>set xs. p x)"
  by (induction xs) auto

text \<open>
  Claim C3. \<open>is_valid_plaintext\<close> accepts a byte sequence if and only if every
  byte is printable or whitespace. In particular a buffer of printable ASCII
  (\<open>0x20..0x7E\<close>) is accepted, a buffer holding a byte outside both classes, such
  as \<open>0x00\<close>, is rejected, and the empty buffer is accepted.
\<close>

theorem is_valid_plaintext_iff:
  "(is_valid_plaintext D \<longleftrightarrow> (\<forall>c\<in>set D. isprint c \<or> isspace c)) \<and>
   ((\<forall>c\<in>set D. 0x20 \<le> c \<and> c \<le> 0x7E) \<longrightarrow> is_valid_plaintext D) \<and>
   ((\<exists>c\<in>set D. \<not> isprint c \<and> \<not> isspace c) \<longrightarrow> \<not> is_valid_plaintext D) \<and>
   (0 \<in> set D \<longrightarrow> \<not> is_valid_plaintext D) \<and>
   is_valid_plaintext []"
proof -
  have z: "\<not> isprint 0" "\<not> isspace 0"
    by (simp_all add: isprint_def isspace_def)
  have p: "isprint c" if "0x20 \<le> c \<and> c \<le> 0x7E" for c
    using that by (simp add: isprint_def)
  show ?thesis
    unfolding is_valid_plaintext_def all_of_iff using z by (auto intro: p)
qed

theorem is_valid_plaintext_iff_witness:
  "is_valid_plaintext [0x68, 0x69, 0x0A] \<and> \<not> is_valid_plaintext [0x68, 0x00]"
  using is_valid_plaintext_iff [of "[0x68, 0x69, 0x0A]"]
        is_valid_plaintext_iff [of "[0x68, 0x00]"]
  by (simp add: isprint_def isspace_def)

section \<open>The table stays a permutation\<close>

declare ksa_loop.simps [simp del] prga_loop.simps [simp del]

lemma length_swap_entries [simp]: "length (swap_entries S a b) = length S"
  by (simp add: swap_entries_def)

lemma mset_swap_entries:
  "a < length S \<Longrightarrow> b < length S \<Longrightarrow> mset (swap_entries S a b) = mset S"
  unfolding swap_entries_def by (rule mset_swap)

lemma ksa_loop_mset:
  "length S = 256 \<Longrightarrow>
   mset (snd (ksa_loop keys key_length k j S)) = mset S \<and>
   length (snd (ksa_loop keys key_length k j S)) = 256"
proof (induction keys key_length k j S rule: ksa_loop.induct)
  case (1 keys key_length k j S)
  show ?case
  proof (cases "k < 256")
    case True
    define j' where "j' = (j + unat (S ! k) + unat (keys ! (k mod key_length))) mod 256"
    have j': "j' < 256" by (simp add: j'_def)
    have len: "length (swap_entries S k j') = 256" using "1.prems" by simp
    have step: "ksa_loop keys key_length k j S =
        ksa_loop keys key_length (k + 1) j' (swap_entries S k j')"
      using True by (subst ksa_loop.simps) (simp add: j'_def Let_def)
    have "mset (swap_entries S k j') = mset S"
      using True j' "1.prems" by (simp add: mset_swap_entries)
    with "1.IH" [OF True j'_def len] step show ?thesis by simp
  next
    case False
    then show ?thesis using "1.prems" by (subst (1 2) ksa_loop.simps) simp
  qed
qed

lemma prga_loop_mset:
  "length S = 256 \<Longrightarrow>
   mset (snd (snd (prga_loop gid n i j S))) = mset S \<and>
   length (snd (snd (prga_loop gid n i j S))) = 256"
proof (induction gid n i j S rule: prga_loop.induct)
  case (1 gid n i j S)
  show ?case
  proof (cases "n < gid")
    case True
    define i' where "i' = (i + 1) mod 256"
    define j' where "j' = (j + unat (S ! i')) mod 256"
    have b: "i' < 256" "j' < 256" by (simp_all add: i'_def j'_def)
    have len: "length (swap_entries S i' j') = 256" using "1.prems" by simp
    have step: "prga_loop gid n i j S = prga_loop gid (n + 1) i' j' (swap_entries S i' j')"
      using True by (subst prga_loop.simps) (simp add: i'_def j'_def Let_def)
    have "mset (swap_entries S i' j') = mset S"
      using b "1.prems" by (simp add: mset_swap_entries)
    with "1.IH" [OF True i'_def j'_def len] step show ?thesis by simp
  next
    case False
    then show ?thesis using "1.prems" by (subst (1 2) prga_loop.simps) simp
  qed
qed

lemma length_identity_table [simp]: "length identity_table = 256"
  by (simp add: identity_table_def)

lemma distinct_identity_table: "distinct identity_table"
  unfolding identity_table_def
  by (auto simp: distinct_map inj_on_def word_of_nat_eq_iff take_bit_nat_eq_self)

lemma set_identity_table: "set identity_table = UNIV"
proof -
  have "v \<in> set identity_table" for v :: u8
  proof -
    have "unat v < 256" using unsigned_less [of v] by simp
    then have "unat v \<in> set [0..<256]" by simp
    then have "of_nat (unat v) \<in> set identity_table"
      unfolding identity_table_def set_map by (rule imageI)
    then show ?thesis by simp
  qed
  then show ?thesis by auto
qed

lemma count_identity_table: "count (mset identity_table) v = 1"
proof -
  have "v \<in> set identity_table" by (simp add: set_identity_table)
  then show ?thesis
    using distinct_identity_table by (simp add: distinct_count_atmost_1)
qed

lemma permutation_table_iff:
  "permutation_table S \<longleftrightarrow> length S = 256 \<and> mset S = mset identity_table"
proof -
  have "(\<forall>v. count_list S v = 1) \<longleftrightarrow> mset S = mset identity_table"
    by (auto simp: multiset_eq_iff count_identity_table simp flip: count_mset)
  then show ?thesis by (simp add: permutation_table_def)
qed

text \<open>
  Claim C9. For a key of length at least 1, the table that the key-scheduling pass
  of \<open>rc4_decrypt\<close> leaves (identity initialisation, then 256 swap steps) is a
  permutation of \<open>0..255\<close>, and the cursor-advance loop, started on any
  permutation from any cursors and run for any number of steps, leaves a
  permutation again.
\<close>

theorem ksa_prga_permutation:
  assumes "1 \<le> key_length" and "key_length = length keys"
  shows "permutation_table (snd (ksa_loop keys key_length 0 0 identity_table)) \<and>
     (\<forall>S gid n i j. permutation_table S \<longrightarrow>
        permutation_table (snd (snd (prga_loop gid n i j S))))"
  using ksa_loop_mset [of identity_table keys key_length 0 0] prga_loop_mset
  by (simp add: permutation_table_iff)

theorem ksa_prga_permutation_witness:
  "permutation_table (snd (ksa_loop [0x4B, 0x65, 0x79] 3 0 0 identity_table)) \<and>
   permutation_table (snd (snd (prga_loop 5 0 0 0
      (snd (ksa_loop [0x4B, 0x65, 0x79] 3 0 0 identity_table)))))"
  using ksa_prga_permutation [of 3 "[0x4B, 0x65, 0x79]"] by simp

section \<open>The dispatcher computes the keystream xor\<close>

lemma int_of_size_t_small: "n < 2 ^ 31 \<Longrightarrow> int_of_size_t n = int n"
  unfolding int_of_size_t_def
  by (simp add: signed_of_nat signed_take_bit_int_eq_self)

lemma length_rc4_decrypt [simp]:
  "length (rc4_decrypt enc dec keys kl dl g) = length dec"
  by (simp add: rc4_decrypt_def Let_def)

lemma length_run_kernel [simp]:
  "length (run_kernel enc dec keys kl dl gws) = length dec"
  unfolding run_kernel_def
  by (induction gws) simp_all

lemma run_kernel_prefix:
  assumes "N < 2 ^ 31" and "length dev = N" and "m \<le> N"
  shows "run_kernel enc dev keys kl (int N) m =
           map (\<lambda>p. (enc ! p) XOR kernel_keystream keys (nat kl) p) [0..<m] @ drop m dev"
  using assms(3)
proof (induction m)
  case 0
  then show ?case by (simp add: run_kernel_def)
next
  case (Suc m)
  let ?F = "\<lambda>p. (enc ! p) XOR kernel_keystream keys (nat kl) p"
  have m: "m < N" using Suc.prems by simp
  then have g: "int_of_size_t m = int m" using assms(1) by (simp add: int_of_size_t_small)
  have "run_kernel enc dev keys kl (int N) (Suc m) =
          rc4_decrypt enc (run_kernel enc dev keys kl (int N) m) keys kl (int N) m"
    by (simp add: run_kernel_def)
  also have "\<dots> = (map ?F [0..<m] @ drop m dev)[m := ?F m]"
    using Suc.IH m g by (simp add: rc4_decrypt_def)
  also have "\<dots> = map ?F [0..<m] @ (drop m dev)[0 := ?F m]"
    by (simp add: list_update_append)
  also have "drop m dev = dev ! m # drop (Suc m) dev"
    using m assms(2) by (simp add: Cons_nth_drop_Suc)
  finally show ?case by simp
qed

lemma dispatch_eq:
  assumes "length enc < 2 ^ 31" and "length dev = length enc" and "kl = int (length keys)"
  shows "dispatch enc dev keys kl = keystream_xor keys enc"
  using run_kernel_prefix [OF assms(1) assms(2) order_refl, of enc keys kl] assms
  by (simp add: dispatch_def keystream_xor_def int_of_size_t_small)

lemma length_dispatch [simp]: "length (dispatch enc dev keys kl) = length dev"
  by (simp add: dispatch_def)

lemma length_keystream_xor [simp]: "length (keystream_xor keys data) = length data"
  by (simp add: keystream_xor_def)

lemma keystream_xor_involution: "keystream_xor keys (keystream_xor keys data) = data"
  by (rule nth_equalityI) (simp_all add: keystream_xor_def xor.assoc)

section \<open>The loops visit one key per length\<close>

declare length_loop.simps [simp del]

lemma char_less_irrefl: "\<not> char_less c c"
  by (simp add: char_less_def)

lemma find_pivot_replicate:
  "\<not> lt c c \<Longrightarrow> m < n \<or> m = 0 \<Longrightarrow> find_pivot lt (replicate n c) m = None"
  by (induction m) auto

lemma next_permutation_replicate:
  "\<not> lt c c \<Longrightarrow> next_permutation lt (replicate n c) = (False, replicate n c)"
proof -
  assume irrefl: "\<not> lt c c"
  have "n - 1 < n \<or> n - 1 = 0" by arith
  then have "find_pivot lt (replicate n c) (n - 1) = None"
    using irrefl by (rule find_pivot_replicate [rotated])
  then show ?thesis by (simp add: next_permutation_def)
qed

lemma key_loop_replicate:
  "key_loop body (replicate n c) s = Some (body (replicate n c) s)"
  by (subst key_loop.simps)
     (simp add: next_permutation_replicate char_less_irrefl split: step.split)

lemma length_loop_step:
  "length_loop body charset mx kl s =
     (if kl \<le> mx then
        (case body kl (replicate (nat kl) (charset_front charset)) s of
           Throw x s' \<Rightarrow> Some (Throw x s')
         | Return d s' \<Rightarrow> Some (Return d s')
         | Continue s' \<Rightarrow> length_loop body charset mx (kl + 1) s')
      else Some (Continue s))"
  by (subst length_loop.simps) (simp add: key_loop_replicate split: step.split)

lemma key_sequence_from:
  "length_loop (\<lambda>key_length key_str ks. Continue (ks @ [key_str])) charset mx kl acc =
     Some (Continue (acc @ map (\<lambda>L. replicate (nat L) (charset_front charset)) [kl..mx]))"
proof (induction "nat (mx + 1 - kl)" arbitrary: kl acc)
  case 0
  then show ?case by (subst length_loop_step) simp
next
  case (Suc d)
  then have le: "kl \<le> mx" by simp
  have "d = nat (mx + 1 - (kl + 1))" using Suc.hyps(2) by simp
  from Suc.hyps(1) [OF this] le show ?case
    by (subst length_loop_step) (simp add: upto_rec1 [of kl mx])
qed

lemma key_sequence_eq:
  "key_sequence charset mx =
     Some (Continue (map (\<lambda>L. replicate (nat L) (charset_front charset)) [1..mx]))"
  using key_sequence_from [of charset mx 1 "[]"] by (simp add: key_sequence_def)

text \<open>
  The keys of different lengths do not even differ in effect: the key schedule reads
  the key cyclically, so \<open>n\<close> copies of a character schedule the table that one
  copy does, and every attempt of a run computes the same buffer.
\<close>

lemma ksa_loop_replicate:
  "0 < n \<Longrightarrow> ksa_loop (replicate n c) n k j S = ksa_loop [c] 1 k j S"
proof (induction "[c]" "1::nat" k j S rule: ksa_loop.induct)
  case (1 k j S)
  show ?case
  proof (cases "k < 256")
    case True
    have nth: "replicate n c ! (k mod n) = c" using "1.prems" by simp
    define j' where "j' = (j + unat (S ! k) + unat ([c] ! (k mod 1))) mod 256"
    have j'': "j' = (j + unat (S ! k) + unat (replicate n c ! (k mod n))) mod 256"
      by (simp add: j'_def nth)
    have "ksa_loop (replicate n c) n k j S =
        ksa_loop (replicate n c) n (k + 1) j' (swap_entries S k j')"
      using True by (subst ksa_loop.simps) (simp add: j'' Let_def)
    moreover have "ksa_loop [c] 1 k j S = ksa_loop [c] 1 (k + 1) j' (swap_entries S k j')"
      using True by (subst ksa_loop.simps) (simp add: j'_def Let_def)
    ultimately show ?thesis using "1.hyps" [OF True j'_def "1.prems"] by simp
  next
    case False
    then show ?thesis by (subst (1 2) ksa_loop.simps) simp
  qed
qed

lemma keystream_xor_replicate:
  "0 < n \<Longrightarrow> keystream_xor (replicate n c) data = keystream_xor [c] data"
  by (simp add: keystream_xor_def kernel_keystream_def ksa_loop_replicate)

text \<open>
  Claim C2 asks for \<open>C^L\<close> distinct keys of every length \<open>L\<close>. The loops do not
  deliver them: \<open>key_str\<close> starts as \<open>L\<close> copies of \<open>charset[0]\<close>, which has no
  next permutation, so each length contributes that one key. For the character set
  \<open>"ab"\<close> and maximum length 2 the keys visited are \<open>"a"\<close> and \<open>"aa"\<close>, where the
  Cartesian powers hold 2 and 4 keys.
\<close>

theorem enumeration_one_key_per_length:
  "key_sequence [0x61, 0x62] 2 = Some (Continue [[0x61], [0x61, 0x61]])"
proof -
  have "[1..2::int] = [1, 2]" by (simp add: upto_rec1)
  then show ?thesis
    by (simp add: key_sequence_eq charset_front_def numeral_2_eq_2)
qed

section \<open>The kernel's keystream against the serial reference\<close>

lemma prga_loop_funpow:
  "prga_loop gid n i j S = (reference_advance ^^ (gid - n)) (i, j, S)"
proof (induction gid n i j S rule: prga_loop.induct)
  case (1 gid n i j S)
  show ?case
  proof (cases "n < gid")
    case True
    define i' where "i' = (i + 1) mod 256"
    define j' where "j' = (j + unat (S ! i')) mod 256"
    have step: "prga_loop gid n i j S = prga_loop gid (n + 1) i' j' (swap_entries S i' j')"
      using True by (subst prga_loop.simps) (simp add: i'_def j'_def Let_def)
    have adv: "reference_advance (i, j, S) = (i', j', swap_entries S i' j')"
      by (simp add: reference_advance_def i'_def j'_def Let_def)
    have "gid - n = Suc (gid - (n + 1))" using True by simp
    then have "(reference_advance ^^ (gid - n)) (i, j, S) =
        (reference_advance ^^ (gid - (n + 1))) (reference_advance (i, j, S))"
      by (simp add: funpow_swap1)
    with "1.IH" [OF True i'_def j'_def] step adv show ?thesis by simp
  next
    case False
    then show ?thesis by (subst prga_loop.simps) simp
  qed
qed

lemma reference_stream_nth:
  "p < n \<Longrightarrow> reference_stream n st ! p = reference_emit ((reference_advance ^^ Suc p) st)"
proof (induction n arbitrary: p st)
  case 0
  then show ?case by simp
next
  case (Suc n)
  show ?case
  proof (cases p)
    case 0
    then show ?thesis by (simp add: Let_def)
  next
    case (Suc q)
    with Suc.prems have "q < n" by simp
    from Suc.IH [OF this, of "reference_advance st"] Suc show ?thesis
      by (simp add: Let_def funpow_swap1)
  qed
qed

lemma kernel_keystream_funpow:
  "kernel_keystream keys key_length gid =
     reference_emit ((reference_advance ^^ gid)
       (0, 0, snd (ksa_loop keys key_length 0 0 identity_table)))"
  by (simp add: kernel_keystream_def prga_loop_funpow reference_emit_def split: prod.split)

text \<open>
  The kernel's byte for work item \<open>p + 1\<close> is the reference's byte \<open>p\<close>: the
  kernel's loop \<open>for (n = 0; n < gid; n++)\<close> advances the cursors \<open>gid\<close> times,
  one time fewer than the reference does before it emits byte \<open>gid\<close>.
\<close>

lemma kernel_keystream_shifted:
  "kernel_keystream keys (length keys) (Suc p) = reference_keystream keys (Suc p) ! p"
  by (simp add: kernel_keystream_funpow reference_keystream_def reference_stream_nth
      del: funpow.simps reference_stream.simps)

lemma ksa_a: "ksa_loop [0x61] 1 0 0 identity_table =
    (163,
     [170, 17, 79, 138, 225, 85, 57, 113, 223, 54, 127, 248, 27, 169, 12, 136,
      35, 107, 222, 43, 199, 25, 229, 52, 77, 90, 144, 72, 212, 36, 134, 188,
      142, 88, 140, 55, 120, 254, 93, 69, 114, 252, 126, 82, 139, 61, 106, 207,
      201, 8, 238, 86, 44, 240, 101, 65, 76, 92, 215, 22, 171, 103, 192, 96,
      63, 163, 70, 234, 129, 23, 202, 226, 178, 197, 46, 125, 133, 119, 74, 214,
      42, 181, 213, 2, 185, 124, 130, 235, 164, 194, 30, 60, 162, 230, 224, 109,
      208, 221, 160, 67, 232, 174, 26, 247, 182, 28, 118, 156, 73, 5, 149, 186,
      62, 123, 7, 216, 204, 147, 143, 167, 154, 45, 173, 29, 16, 153, 32, 50,
      191, 131, 157, 152, 117, 48, 203, 148, 236, 196, 151, 227, 200, 91, 135, 87,
      132, 211, 49, 3, 165, 253, 39, 205, 102, 137, 128, 242, 64, 255, 15, 158,
      190, 94, 104, 11, 183, 172, 179, 187, 112, 245, 177, 150, 10, 19, 193, 209,
      33, 95, 115, 210, 24, 31, 250, 21, 161, 180, 37, 1, 18, 241, 97, 146,
      13, 68, 89, 155, 58, 145, 176, 141, 6, 108, 219, 121, 218, 198, 51, 116,
      228, 99, 105, 231, 75, 53, 38, 184, 9, 251, 100, 34, 71, 244, 47, 20,
      166, 239, 40, 66, 4, 84, 78, 246, 56, 175, 249, 110, 237, 111, 98, 243,
      122, 59, 168, 195, 159, 0, 233, 189, 206, 80, 81, 217, 220, 14, 41, 83])"
  by code_simp

lemma ksa_Key: "ksa_loop [0x4B, 0x65, 0x79] 3 0 0 identity_table =
    (54,
     [75, 51, 132, 157, 192, 200, 29, 168, 74, 243, 131, 228, 18, 112, 130, 144,
      91, 143, 236, 34, 41, 185, 204, 92, 191, 216, 186, 14, 110, 77, 8, 35,
      188, 27, 103, 137, 182, 64, 59, 105, 215, 247, 238, 126, 138, 26, 227, 55,
      21, 84, 104, 78, 135, 113, 255, 172, 56, 89, 187, 28, 62, 32, 45, 65,
      36, 251, 152, 116, 189, 7, 108, 46, 202, 162, 159, 83, 31, 154, 11, 231,
      106, 13, 0, 217, 20, 229, 102, 118, 82, 85, 176, 97, 214, 151, 6, 4,
      142, 245, 134, 60, 225, 165, 3, 39, 86, 101, 90, 127, 197, 72, 117, 146,
      47, 195, 42, 128, 100, 253, 174, 209, 25, 239, 114, 219, 244, 234, 163, 190,
      183, 235, 54, 98, 153, 121, 123, 38, 40, 180, 179, 139, 203, 70, 5, 24,
      43, 199, 224, 213, 210, 220, 173, 241, 23, 88, 196, 79, 242, 58, 9, 73,
      141, 160, 193, 181, 19, 233, 63, 80, 30, 81, 111, 226, 175, 150, 207, 222,
      17, 119, 230, 96, 71, 87, 133, 198, 95, 169, 155, 212, 66, 49, 205, 2,
      76, 115, 37, 194, 57, 22, 223, 178, 16, 12, 93, 237, 240, 33, 206, 69,
      53, 158, 148, 15, 122, 136, 161, 246, 201, 44, 171, 67, 184, 109, 252, 50,
      170, 145, 149, 140, 94, 218, 156, 208, 1, 129, 68, 48, 254, 164, 250, 167,
      248, 125, 177, 166, 232, 120, 107, 99, 249, 221, 52, 124, 10, 211, 61, 147])"
  by code_simp

text \<open>
  Claim C1 equates the kernel's byte at position \<open>p\<close> with the reference's byte
  \<open>p\<close>. It fails at the first position. For the key \<open>"a"\<close>, the first key the
  search tries under the character set of \<open>main\<close>, work item 0 emits \<open>0xB9\<close>,
  the table entry before any advance, where the reference keystream starts with
  \<open>0x10\<close>. For the key \<open>"Key"\<close> the reference keystream starts with \<open>0xEB\<close>
  (the published RC4 test vector), work item 0 emits \<open>0xAD\<close>, and \<open>0xEB\<close> is
  what work item 1 emits.
\<close>

theorem kernel_keystream_off_by_one:
  "kernel_keystream [0x61] 1 0 = 0xB9 \<and>
   reference_keystream [0x61] 1 = [0x10] \<and>
   kernel_keystream [0x4B, 0x65, 0x79] 3 0 = 0xAD \<and>
   reference_keystream [0x4B, 0x65, 0x79] 1 = [0xEB] \<and>
   kernel_keystream [0x4B, 0x65, 0x79] 3 1 = 0xEB"
proof -
  have la: "length [0x61 :: u8] = 1" by simp
  have a0: "kernel_keystream [0x61] 1 0 = 0xB9"
    unfolding kernel_keystream_def ksa_a by (simp add: prga_loop.simps)
  have ra: "reference_keystream [0x61] 1 = [0x10]"
    unfolding reference_keystream_def la ksa_a
    by (simp add: reference_advance_def reference_emit_def swap_entries_def Let_def)
  have l: "length [0x4B, 0x65, 0x79 :: u8] = 3" by simp
  have k0: "kernel_keystream [0x4B, 0x65, 0x79] 3 0 = 0xAD"
    unfolding kernel_keystream_def ksa_Key by (simp add: prga_loop.simps)
  have r: "reference_keystream [0x4B, 0x65, 0x79] 1 = [0xEB]"
    unfolding reference_keystream_def l ksa_Key
    by (simp add: reference_advance_def reference_emit_def swap_entries_def Let_def)
  have "kernel_keystream [0x4B, 0x65, 0x79] 3 (Suc 0) =
      reference_keystream [0x4B, 0x65, 0x79] (Suc 0) ! 0"
    using kernel_keystream_shifted [of "[0x4B, 0x65, 0x79]" 0] unfolding l .
  with r have "kernel_keystream [0x4B, 0x65, 0x79] 3 1 = 0xEB" by simp
  with a0 ra k0 r show ?thesis by simp
qed

section \<open>One attempt\<close>

lemma dispatched_append: "dispatched (es @ es') = dispatched es @ dispatched es'"
  by (induction es rule: dispatched.induct) simp_all

lemma or5_zero:
  "(a OR b OR c OR d OR e) = (0 :: cl_int) \<longleftrightarrow> a = 0 \<and> b = 0 \<and> c = 0 \<and> d = 0 \<and> e = 0"
  by (simp add: or_eq_0_iff)

lemma attempt_succeeds:
  assumes "attempt_ok w (attempts h)" and "length enc < 2 ^ 31"
    and "length (device_out h) = length enc" and "kl = int (length key)"
  shows "attempt w enc kl key h =
    (let n = attempts h;
         D = keystream_xor key enc;
         h' = h\<lparr>events := events h @
                  [Create_keys n key, Set_arg n 0, Set_arg n 1, Set_arg n 2, Set_arg n 3,
                   Set_arg n 4, Enqueue n (length enc), Read_back n],
                device_out := D, decrypted_data := D, attempts := n + 1\<rparr>
     in if is_valid_plaintext D
        then Return D (emit [Cout_key ''Decryption successful, key found: '' key,
                             Cout_time (end_time w - start_time w)] h')
        else Continue (emit [Release_keys n] h'))"
  using assms
  by (simp add: attempt_def attempt_ok_def emit_def Let_def dispatch_eq CL_SUCCESS_def)

lemma attempt_fails:
  assumes "\<not> attempt_ok w (attempts h)"
  shows "\<exists>msg h' line code. attempt w enc kl key h = Throw (Runtime_error msg) h' \<and>
     msg \<in> {''OpenCL buffer creation error'', ''OpenCL kernel argument setting error'',
            ''OpenCL kernel enqueue error'', ''OpenCL buffer read error''} \<and>
     dispatched (events h') = dispatched (events h) @ [key] \<and>
     last (events h') = Cerr_code line code \<and> code \<noteq> CL_SUCCESS"
  using assms
  by (auto simp add: attempt_def attempt_ok_def emit_def Let_def CL_SUCCESS_def
      dispatched_append or5_zero)



lemma attempt_no_text:
  "Cout_text t \<notin> set (events h) \<Longrightarrow>
   Cout_text t \<notin> set (events (host_of (attempt w enc kl key h)))"
  by (auto simp: attempt_def emit_def Let_def split: if_splits)

section \<open>The search as a whole\<close>

lemma run_setup_ok:
  "setup_ok w \<Longrightarrow>
   run_setup w setup_steps [] = Inr (map (\<lambda>(c, r, m). Setup_call c) setup_steps)"
  by (simp add: setup_ok_def setup_steps_def)

lemma dispatched_setup [simp]:
  "dispatched (map (\<lambda>(c, r, m). Setup_call c) setup_steps) = []"
  by (simp add: setup_steps_def)

lemma setup_events:
  "map (\<lambda>(c, r, m). Setup_call c) setup_steps =
     [Setup_call GetPlatformIDs, Setup_call GetDeviceIDs, Setup_call CreateContext,
      Setup_call CreateCommandQueue, Setup_call CreateProgramWithSource,
      Setup_call BuildProgram, Setup_call CreateKernel,
      Setup_call CreateBuffer_encrypted, Setup_call CreateBuffer_decrypted]"
  by (simp add: setup_steps_def)

lemma run_setup_no_text:
  "\<forall>(c, report, m) \<in> set steps. \<forall>e. report e \<noteq> Cout_text t \<Longrightarrow> Cout_text t \<notin> set es \<Longrightarrow>
   (case run_setup w steps es of Inl (x, es') \<Rightarrow> Cout_text t \<notin> set es'
                               | Inr es' \<Rightarrow> Cout_text t \<notin> set es')"
  by (induction w steps es rule: run_setup.induct) auto

lemma setup_steps_no_text:
  "\<forall>(c, report, m) \<in> set setup_steps. \<forall>e. report e \<noteq> Cout_text t"
  by (simp add: setup_steps_def)

lemma brute_force_loop:
  "setup_ok w \<Longrightarrow> brute_force_rc4_gpu w enc charset mx =
     (case length_loop (attempt w enc) charset mx 1 (initial_host w enc) of
        None \<Rightarrow> None
      | Some (Throw x h') \<Rightarrow> Some \<lparr>ret = Inl x, trace = events h'\<rparr>
      | Some (Return d h') \<Rightarrow> Some \<lparr>ret = Inr d, trace = events h'\<rparr>
      | Some (Continue h') \<Rightarrow>
          Some \<lparr>ret = Inr [],
                trace = events h' @ [Cout_text ''No valid key found'',
                                     Cout_time (end_time w - start_time w)]\<rparr>)"
  by (simp add: brute_force_rc4_gpu_def run_setup_ok initial_host_def Let_def)

text \<open>A failed setup call throws before any key is dispatched.\<close>

lemma setup_failure_aborts:
  assumes "\<not> setup_ok w"
  shows "\<exists>msg es. brute_force_rc4_gpu w enc charset mx =
            Some \<lparr>ret = Inl (Runtime_error msg), trace = es\<rparr> \<and> dispatched es = []"
  using assms
  by (auto simp: brute_force_rc4_gpu_def setup_ok_def setup_steps_def)

lemma initial_host_simps [simp]:
  "length (device_out (initial_host w enc)) = length enc"
  "attempts (initial_host w enc) = 0"
  "dispatched (events (initial_host w enc)) = []"
  by (simp_all add: initial_host_def)

text \<open>
  While every attempt succeeds on the backend and is rejected by the validator, the
  loop moves on, one key per length.
\<close>

lemma rejected_prefix:
  fixes w enc charset mx
  defines "cand \<equiv> \<lambda>L. replicate (nat L) (charset_front charset)"
  assumes small: "length enc < 2 ^ 31"
    and dev: "length (device_out h) = length enc"
    and kl: "1 \<le> kl" "kl \<le> L" "L \<le> mx + 1"
    and att: "attempts h = nat (kl - 1)"
    and rej: "\<forall>M. kl \<le> M \<and> M < L \<longrightarrow>
       attempt_ok w (nat (M - 1)) \<and> \<not> is_valid_plaintext (keystream_xor (cand M) enc)"
  shows "\<exists>h'. length_loop (attempt w enc) charset mx kl h =
             length_loop (attempt w enc) charset mx L h' \<and>
           length (device_out h') = length enc \<and> attempts h' = nat (L - 1) \<and>
           dispatched (events h') = dispatched (events h) @ map cand [kl..L - 1]"
  using dev kl att rej
proof (induction "nat (L - kl)" arbitrary: kl h)
  case 0
  then have "kl = L" by simp
  with 0 show ?case by (intro exI [of _ h]) simp
next
  case (Suc d)
  then have lt: "kl < L" and le: "kl \<le> mx" by simp_all
  have ok: "attempt_ok w (attempts h)"
    and bad: "\<not> is_valid_plaintext (keystream_xor (cand kl) enc)"
    using Suc.prems lt by simp_all
  define n where "n = attempts h"
  define h1 where "h1 = emit [Release_keys n]
     (h\<lparr>events := events h @
          [Create_keys n (cand kl), Set_arg n 0, Set_arg n 1, Set_arg n 2, Set_arg n 3,
           Set_arg n 4, Enqueue n (length enc), Read_back n],
        device_out := keystream_xor (cand kl) enc,
        decrypted_data := keystream_xor (cand kl) enc, attempts := n + 1\<rparr>)"
  have len: "kl = int (length (cand kl))" using Suc.prems(2) by (simp add: cand_def)
  have a: "attempt w enc kl (cand kl) h = Continue h1"
    using attempt_succeeds [OF ok small Suc.prems(1) len] bad
    by (simp add: Let_def h1_def n_def)
  have step: "length_loop (attempt w enc) charset mx kl h =
      length_loop (attempt w enc) charset mx (kl + 1) h1"
    using le a by (subst length_loop_step) (simp add: cand_def)
  have h1: "length (device_out h1) = length enc" "attempts h1 = nat (kl + 1 - 1)"
    "dispatched (events h1) = dispatched (events h) @ [cand kl]"
    using Suc.prems(2,5) by (simp_all add: h1_def emit_def n_def dispatched_append)
  have d: "d = nat (L - (kl + 1))" using Suc.hyps(2) by simp
  have rej': "\<forall>M. kl + 1 \<le> M \<and> M < L \<longrightarrow>
       attempt_ok w (nat (M - 1)) \<and> \<not> is_valid_plaintext (keystream_xor (cand M) enc)"
    using Suc.prems(6) by simp
  from Suc.hyps(1) [OF d h1(1) _ _ Suc.prems(4) h1(2) rej'] lt Suc.prems(2)
  obtain h' where h': "length_loop (attempt w enc) charset mx (kl + 1) h1 =
             length_loop (attempt w enc) charset mx L h'"
           "length (device_out h') = length enc" "attempts h' = nat (L - 1)"
           "dispatched (events h') = dispatched (events h1) @ map cand [kl + 1..L - 1]"
    by auto
  have "[kl..L - 1] = kl # [kl + 1..L - 1]" using lt by (simp add: upto_rec1)
  with h' h1 step show ?case by (intro exI [of _ h']) simp
qed

lemma take_upto: "0 \<le> L \<Longrightarrow> L \<le> mx \<Longrightarrow> take (nat L) [1..mx] = [1..L]"
proof -
  assume a: "0 \<le> L" "L \<le> mx"
  have "[1..mx] = [1..L] @ [L + 1..mx]"
    using a upto_split2 [of 1 L mx] by (cases "L = 0") (simp_all add: upto_rec1)
  then show ?thesis using a by simp
qed

lemma key_sequence_facts:
  assumes "key_sequence charset mx = Some (Continue ks)"
  defines "cand \<equiv> \<lambda>L. replicate (nat L) (charset_front charset)"
  shows "length ks = nat mx"
    and "j < length ks \<Longrightarrow> ks ! j = cand (int j + 1)"
    and "0 \<le> L \<Longrightarrow> L \<le> mx \<Longrightarrow> take (nat L) ks = map cand [1..L]"
proof -
  have ks: "ks = map cand [1..mx]"
    using assms(1) by (simp add: key_sequence_eq cand_def)
  show "length ks = nat mx" by (simp add: ks)
  show "ks ! j = cand (int j + 1)" if "j < length ks"
    using that by (simp add: ks nth_upto add.commute)
  show "take (nat L) ks = map cand [1..L]" if "0 \<le> L" "L \<le> mx"
    using that by (simp add: ks take_map take_upto)
qed

lemma rejected_upto:
  assumes "length enc < 2 ^ 31"
    and "key_sequence charset mx = Some (Continue ks)"
    and "m \<le> length ks"
    and "\<forall>j<m. attempt_ok w j \<and> \<not> is_valid_plaintext (keystream_xor (ks ! j) enc)"
  shows "\<exists>h'. length_loop (attempt w enc) charset mx 1 (initial_host w enc) =
             length_loop (attempt w enc) charset mx (int m + 1) h' \<and>
           length (device_out h') = length enc \<and> attempts h' = m \<and>
           dispatched (events h') = take m ks"
proof (cases "m = 0")
  case True
  then show ?thesis by (intro exI [of _ "initial_host w enc"]) simp
next
  case False
  define cand where "cand = (\<lambda>L. replicate (nat L) (charset_front charset))"
  note f = key_sequence_facts [OF assms(2)]
  have m: "int m \<le> mx" using assms(3) f(1) False by simp
  have rej: "\<forall>M. 1 \<le> M \<and> M < int m + 1 \<longrightarrow>
       attempt_ok w (nat (M - 1)) \<and> \<not> is_valid_plaintext (keystream_xor (cand M) enc)"
  proof (intro allI impI)
    fix M :: int assume M: "1 \<le> M \<and> M < int m + 1"
    then have j: "nat (M - 1) < m" by arith
    have "int (nat (M - 1)) + 1 = M" using M by arith
    then have "ks ! nat (M - 1) = cand M"
      using f(2) [of "nat (M - 1)"] assms(3) j by (simp add: cand_def)
    with assms(4) j show "attempt_ok w (nat (M - 1)) \<and>
        \<not> is_valid_plaintext (keystream_xor (cand M) enc)" by metis
  qed
  have "take m ks = map cand [1..int m]"
    using f(3) [of "int m"] m by (simp add: cand_def)
  with rejected_prefix [of enc "initial_host w enc" 1 "int m + 1" mx w charset, OF assms(1)]
    rej m show ?thesis by (simp add: cand_def)
qed

text \<open>An invariant rule for the loop over the key lengths, and its totality.\<close>

lemma length_loop_invariant:
  assumes "length_loop body charset mx kl s = Some r"
    and "I s"
    and "\<And>L key s s'. I s \<Longrightarrow> body L key s = Continue s' \<Longrightarrow> I s'"
    and "\<And>L key s x s'. I s \<Longrightarrow> body L key s = Throw x s' \<Longrightarrow> Q (Throw x s')"
    and "\<And>L key s d s'. I s \<Longrightarrow> body L key s = Return d s' \<Longrightarrow> Q (Return d s')"
    and "\<And>s. I s \<Longrightarrow> Q (Continue s)"
  shows "Q r"
  using assms(1,2)
proof (induction "nat (mx + 1 - kl)" arbitrary: kl s)
  case 0
  then have "r = Continue s" by (subst (asm) length_loop_step) simp
  with 0 assms(6) show ?case by simp
next
  case (Suc d)
  then have le: "kl \<le> mx" by simp
  have d: "d = nat (mx + 1 - (kl + 1))" using Suc.hyps(2) by simp
  let ?key = "replicate (nat kl) (charset_front charset)"
  show ?case
  proof (cases "body kl ?key s")
    case (Throw x s')
    with Suc.prems le have "r = Throw x s'" by (subst (asm) length_loop_step) simp
    with assms(4) [OF Suc.prems(2) Throw] show ?thesis by simp
  next
    case (Return dd s')
    with Suc.prems le have "r = Return dd s'" by (subst (asm) length_loop_step) simp
    with assms(5) [OF Suc.prems(2) Return] show ?thesis by simp
  next
    case (Continue s')
    with Suc.prems le have "length_loop body charset mx (kl + 1) s' = Some r"
      by (subst (asm) length_loop_step) simp
    from Suc.hyps(1) [OF d this assms(3) [OF Suc.prems(2) Continue]] show ?thesis .
  qed
qed

lemma length_loop_total: "\<exists>r. length_loop body charset mx kl s = Some r"
proof (induction "nat (mx + 1 - kl)" arbitrary: kl s)
  case 0
  then show ?case by (subst length_loop_step) simp
next
  case (Suc d)
  then have le: "kl \<le> mx" by simp
  have d: "d = nat (mx + 1 - (kl + 1))" using Suc.hyps(2) by simp
  from Suc.hyps(1) [OF d] le show ?case
    by (subst length_loop_step) (simp split: step.split)
qed

text \<open>The search returns on every input: neither loop can run forever.\<close>

lemma brute_force_total: "\<exists>r. brute_force_rc4_gpu w enc charset mx = Some r"
proof (cases "run_setup w setup_steps []")
  case (Inl a)
  then show ?thesis by (simp add: brute_force_rc4_gpu_def split: prod.splits)
next
  case (Inr es)
  define h where "h = \<lparr>events = es, device_out = map (fresh_memory w) [0..<length enc],
       decrypted_data = replicate (length enc) 0, attempts = 0\<rparr>"
  obtain s where s: "length_loop (attempt w enc) charset mx 1 h = Some s"
    using length_loop_total [of "attempt w enc" charset mx 1 h] by auto
  with Inr show ?thesis
    by (simp add: brute_force_rc4_gpu_def Let_def h_def split: step.splits)
qed


lemma exhausted_returns_empty:
  assumes "brute_force_rc4_gpu w enc charset mx = Some r"
    and "Cout_text t \<in> set (trace r)"
  shows "ret r = Inr []"
proof (cases "run_setup w setup_steps []")
  case (Inl a)
  with run_setup_no_text [OF setup_steps_no_text, of t "[]" w] assms show ?thesis
    by (auto simp: brute_force_rc4_gpu_def split: prod.splits)
next
  case (Inr es)
  define h where "h = \<lparr>events = es, device_out = map (fresh_memory w) [0..<length enc],
       decrypted_data = replicate (length enc) 0, attempts = 0\<rparr>"
  have es: "Cout_text t \<notin> set (events h)"
    using run_setup_no_text [OF setup_steps_no_text, of t "[]" w] Inr by (simp add: h_def)
  obtain s where s: "length_loop (attempt w enc) charset mx 1 h = Some s"
    using length_loop_total [of "attempt w enc" charset mx 1 h] by auto
  have "Cout_text t \<notin> set (events (host_of s))"
  proof (rule length_loop_invariant [OF s, where I = "\<lambda>h. Cout_text t \<notin> set (events h)"])
    show "Cout_text t \<notin> set (events h)" by (rule es)
  next
    fix L key and g g' :: host
    assume "Cout_text t \<notin> set (events g)" "attempt w enc L key g = Continue g'"
    with attempt_no_text [of t g w enc L key] show "Cout_text t \<notin> set (events g')" by simp
  next
    fix L key x and g g' :: host
    assume "Cout_text t \<notin> set (events g)" "attempt w enc L key g = Throw x g'"
    with attempt_no_text [of t g w enc L key]
    show "Cout_text t \<notin> set (events (host_of (Throw x g')))" by simp
  next
    fix L key d and g g' :: host
    assume "Cout_text t \<notin> set (events g)" "attempt w enc L key g = Return d g'"
    with attempt_no_text [of t g w enc L key]
    show "Cout_text t \<notin> set (events (host_of (Return d g')))" by simp
  next
    fix g :: host assume "Cout_text t \<notin> set (events g)"
    then show "Cout_text t \<notin> set (events (host_of (Continue g)))" by simp
  qed
  with assms s Inr show ?thesis
    by (auto simp: brute_force_rc4_gpu_def Let_def h_def split: step.splits)
qed

section \<open>Concrete runs with the key "a"\<close>

lemma keystream_a0: "kernel_keystream [0x61] (Suc 0) 0 = 0xB9"
proof -
  have "kernel_keystream [0x61] 1 0 = 0xB9"
    unfolding kernel_keystream_def ksa_a by (simp add: prga_loop.simps)
  then show ?thesis by simp
qed

lemma xor_a_h: "keystream_xor [0x61] [0xD1] = [0x68]"
  by (simp add: keystream_xor_def keystream_a0)

lemma xor_a_0: "keystream_xor [0x61] [0xB9] = [0x00]"
  by (simp add: keystream_xor_def keystream_a0)

lemma valid_h: "is_valid_plaintext [0x68]" "\<not> is_valid_plaintext [0x00]"
  by (simp_all add: is_valid_plaintext_def isprint_def isspace_def)

lemma reference_a0: "reference_keystream [0x61] (Suc 0) = [0x10]"
proof -
  have l: "length [0x61 :: u8] = 1" by simp
  have "reference_keystream [0x61] 1 = [0x10]"
    unfolding reference_keystream_def l ksa_a
    by (simp add: reference_advance_def reference_emit_def swap_entries_def Let_def)
  then show ?thesis by simp
qed

text \<open>
  Claim C5 asks that decrypting \<open>encrypt(P, K)\<close> with \<open>K\<close> through the dispatcher
  give \<open>P\<close> back. It does not: the plaintext \<open>"h"\<close> encrypted under the key
  \<open>"a"\<close> is the byte \<open>0x78\<close> (\<open>0x68\<close> xor the first RC4 keystream byte
  \<open>0x10\<close>), and the dispatcher, run on it with the same key, writes \<open>0xC1\<close>
  (\<open>0x78\<close> xor the byte \<open>0xB9\<close> that work item 0 computes), not \<open>0x68\<close>. The
  cause is the one of claim C1: the kernel's keystream is RC4's moved by one
  position.
\<close>

theorem rc4_round_trip_fails:
  "reference_encrypt [0x61] [0x68] = [0x78] \<and>
   dispatch (reference_encrypt [0x61] [0x68]) [0] [0x61] 1 = [0xC1]"
proof -
  have e: "reference_encrypt [0x61] [0x68] = [0x78]"
    by (simp add: reference_encrypt_def reference_a0)
  have "dispatch [0x78] [0] [0x61] 1 = keystream_xor [0x61] [0x78]"
    by (rule dispatch_eq) simp_all
  also have "\<dots> = [0xC1]"
    by (simp add: keystream_xor_def keystream_a0)
  finally show ?thesis using e by simp
qed

lemma working_env_ok [simp]: "setup_ok working_env" "attempt_ok working_env n"
  by (simp_all add: setup_ok_def attempt_ok_def working_env_def)

lemma key_sequence_a2: "key_sequence [0x61] 2 = Some (Continue [[0x61], [0x61, 0x61]])"
  by (simp add: key_sequence_eq charset_front_def upto_rec1 numeral_2_eq_2)


section \<open>The claims about the search\<close>

text \<open>
  Claim C4. Let the backend work (the setup and every attempt up to the \<open>i\<close>-th
  succeed) and the ciphertext be shorter than \<open>2^31\<close> bytes. If the \<open>i\<close>-th key of
  the enumeration is the first whose decryption the validator accepts, the search
  returns that key's decryption, and the keys handed to the backend are exactly the
  first \<open>i + 1\<close> keys of the enumeration: no later key is dispatched.
\<close>

theorem search_returns_first_accepted:
  assumes "setup_ok w" and "length enc < 2 ^ 31"
    and "key_sequence charset mx = Some (Continue ks)" and "i < length ks"
    and "\<forall>j\<le>i. attempt_ok w j"
    and "\<forall>j<i. \<not> is_valid_plaintext (keystream_xor (ks ! j) enc)"
    and "is_valid_plaintext (keystream_xor (ks ! i) enc)"
  shows "\<exists>r. brute_force_rc4_gpu w enc charset mx = Some r \<and>
           ret r = Inr (keystream_xor (ks ! i) enc) \<and>
           dispatched (trace r) = take (Suc i) ks"
proof -
  have rej: "\<forall>j<i. attempt_ok w j \<and> \<not> is_valid_plaintext (keystream_xor (ks ! j) enc)"
    using assms(5,6) by simp
  from rejected_upto [OF assms(2,3) _ rej] assms(4)
  obtain h where h: "length_loop (attempt w enc) charset mx 1 (initial_host w enc) =
             length_loop (attempt w enc) charset mx (int i + 1) h"
           "length (device_out h) = length enc" "attempts h = i"
           "dispatched (events h) = take i ks"
    by auto
  note f = key_sequence_facts [OF assms(3)]
  have le: "int i + 1 \<le> mx" using assms(4) f(1) by simp
  have key: "replicate (nat (int i + 1)) (charset_front charset) = ks ! i"
    using f(2) [OF assms(4)] by simp
  have ok: "attempt_ok w (attempts h)" using assms(5) h(3) by simp
  have len: "int i + 1 = int (length (ks ! i))" by (simp flip: key)
  have "length_loop (attempt w enc) charset mx (int i + 1) h =
      Some (attempt w enc (int i + 1) (ks ! i) h)"
    using le attempt_succeeds [OF ok assms(2) h(2) len] assms(7)
    by (subst length_loop_step) (simp add: key Let_def)
  with h attempt_succeeds [OF ok assms(2) h(2) len] assms(1,4,7) show ?thesis
    by (simp add: brute_force_loop Let_def emit_def dispatched_append take_Suc_conv_app_nth)
qed

theorem search_returns_first_accepted_witness:
  "\<exists>r. brute_force_rc4_gpu working_env [0xD1] [0x61] 2 = Some r \<and>
       ret r = Inr [0x68] \<and> dispatched (trace r) = [[0x61]]"
  using search_returns_first_accepted
     [of working_env "[0xD1]" "[0x61]" 2 "[[0x61], [0x61, 0x61]]" 0]
  by (simp add: key_sequence_a2 xor_a_h valid_h)



text \<open>
  Claim C8. Let the setup succeed and the attempts before the \<open>n\<close>-th succeed and be
  rejected. If any checked backend call of the \<open>n\<close>-th attempt (creating the key
  buffer, binding one of the five arguments, enqueueing the kernel, reading the
  result back) reports an error, the search ends by throwing a \<open>runtime_error\<close>
  naming the failed step; nothing is returned; the last thing it does is print the
  error code, which is not \<open>CL_SUCCESS\<close>; and no key after the \<open>n\<close>-th is
  dispatched.
\<close>

theorem backend_failure_aborts:
  assumes "setup_ok w" and "length enc < 2 ^ 31"
    and "key_sequence charset mx = Some (Continue ks)" and "n < length ks"
    and "\<forall>j<n. attempt_ok w j \<and> \<not> is_valid_plaintext (keystream_xor (ks ! j) enc)"
    and "\<not> attempt_ok w n"
  shows "\<exists>r msg line code. brute_force_rc4_gpu w enc charset mx = Some r \<and>
           ret r = Inl (Runtime_error msg) \<and>
           msg \<in> {''OpenCL buffer creation error'', ''OpenCL kernel argument setting error'',
                  ''OpenCL kernel enqueue error'', ''OpenCL buffer read error''} \<and>
           dispatched (trace r) = take (Suc n) ks \<and>
           last (trace r) = Cerr_code line code \<and> code \<noteq> CL_SUCCESS"
proof -
  from rejected_upto [OF assms(2,3) _ assms(5)] assms(4)
  obtain h where h: "length_loop (attempt w enc) charset mx 1 (initial_host w enc) =
             length_loop (attempt w enc) charset mx (int n + 1) h"
           "attempts h = n" "dispatched (events h) = take n ks"
    by auto
  note f = key_sequence_facts [OF assms(3)]
  have le: "int n + 1 \<le> mx" using assms(4) f(1) by simp
  have key: "replicate (nat (int n + 1)) (charset_front charset) = ks ! n"
    using f(2) [OF assms(4)] by simp
  have bad: "\<not> attempt_ok w (attempts h)" using assms(6) h(2) by simp
  from attempt_fails [OF bad, of enc "int n + 1" "ks ! n"]
  show ?thesis
  proof (elim exE conjE)
    fix msg h' line code
    assume t: "attempt w enc (int n + 1) (ks ! n) h = Throw (Runtime_error msg) h'"
      "msg \<in> {''OpenCL buffer creation error'', ''OpenCL kernel argument setting error'',
              ''OpenCL kernel enqueue error'', ''OpenCL buffer read error''}"
      "dispatched (events h') = dispatched (events h) @ [ks ! n]"
      "last (events h') = Cerr_code line code" "code \<noteq> CL_SUCCESS"
    have "length_loop (attempt w enc) charset mx (int n + 1) h =
        Some (Throw (Runtime_error msg) h')"
      using le t(1) by (subst length_loop_step) (simp add: key)
    with h assms(1) have run: "brute_force_rc4_gpu w enc charset mx =
        Some \<lparr>ret = Inl (Runtime_error msg), trace = events h'\<rparr>"
      by (simp add: brute_force_loop)
    have disp: "dispatched (events h') = take (Suc n) ks"
      using t(3) h(3) assms(4) by (simp add: take_Suc_conv_app_nth)
    let ?r = "\<lparr>ret = Inl (Runtime_error msg), trace = events h'\<rparr>"
    have "ret ?r = Inl (Runtime_error msg)" and "trace ?r = events h'"
      by simp_all
    with run t(2,4,5) disp
    have res: "brute_force_rc4_gpu w enc charset mx = Some ?r \<and>
           ret ?r = Inl (Runtime_error msg) \<and>
           msg \<in> {''OpenCL buffer creation error'', ''OpenCL kernel argument setting error'',
                  ''OpenCL kernel enqueue error'', ''OpenCL buffer read error''} \<and>
           dispatched (trace ?r) = take (Suc n) ks \<and>
           last (trace ?r) = Cerr_code line code \<and> code \<noteq> CL_SUCCESS"
      by (intro conjI) (simp_all only: not_False_eq_True)
    show ?thesis by (intro exI) (rule res)
  qed
qed

theorem backend_failure_aborts_witness:
  "\<exists>r msg line code. brute_force_rc4_gpu enqueue_failing_env [0x41] [0x61] 2 = Some r \<and>
       ret r = Inl (Runtime_error msg) \<and>
       msg \<in> {''OpenCL buffer creation error'', ''OpenCL kernel argument setting error'',
              ''OpenCL kernel enqueue error'', ''OpenCL buffer read error''} \<and>
       dispatched (trace r) = [[0x61]] \<and>
       last (trace r) = Cerr_code line code \<and> code \<noteq> CL_SUCCESS"
proof -
  have "setup_ok enqueue_failing_env" "\<not> attempt_ok enqueue_failing_env 0"
    by (simp_all add: setup_ok_def attempt_ok_def enqueue_failing_env_def CL_SUCCESS_def)
  from backend_failure_aborts [OF this(1) _ key_sequence_a2 _ _ this(2), of "[0x41]"]
  show ?thesis by simp
qed

text \<open>
  Claim C10 says that for the empty ciphertext the search returns the empty vector.
  As stated, with nothing asked of the backend, it fails: where \<open>clCreateBuffer\<close>
  refuses a size of 0, the run on the empty ciphertext with the character set
  \<open>"a"\<close> and maximum length 1 throws at lines 112-116 while still setting up,
  dispatches no key and returns nothing.
\<close>

theorem empty_ciphertext_refused:
  "brute_force_rc4_gpu zero_size_refusing_env [] [0x61] 1 =
     Some \<lparr>ret = Inl (Runtime_error ''OpenCL buffer creation error''),
           trace = [Setup_call GetPlatformIDs, Setup_call GetDeviceIDs, Setup_call CreateContext,
             Setup_call CreateCommandQueue, Setup_call CreateProgramWithSource,
             Setup_call BuildProgram, Setup_call CreateKernel,
             Setup_call CreateBuffer_encrypted,
             Cerr_code ''Failed to create encrypted data buffer. Error code: ''
               CL_INVALID_BUFFER_SIZE]\<rparr>"
proof -
  have ne: "CL_INVALID_BUFFER_SIZE \<noteq> CL_SUCCESS"
    by (simp add: CL_INVALID_BUFFER_SIZE_def CL_SUCCESS_def)
  have "run_setup zero_size_refusing_env setup_steps [] =
      Inl (Runtime_error ''OpenCL buffer creation error'',
           [Setup_call GetPlatformIDs, Setup_call GetDeviceIDs, Setup_call CreateContext,
            Setup_call CreateCommandQueue, Setup_call CreateProgramWithSource,
            Setup_call BuildProgram, Setup_call CreateKernel,
            Setup_call CreateBuffer_encrypted,
            Cerr_code ''Failed to create encrypted data buffer. Error code: ''
              CL_INVALID_BUFFER_SIZE])"
    using ne by (simp add: setup_steps_def zero_size_refusing_env_def)
  then show ?thesis by (simp add: brute_force_rc4_gpu_def)
qed

text \<open>
  Claim C10, amended. Let the OpenCL calls of the setup and of the first attempt
  all report success (so the backend accepts the zero-size buffers). Then for the
  empty ciphertext, a non-empty character set and a maximum key length of at least
  1, the first key (one copy of the first character) is dispatched, its
  decryption, the empty buffer, is accepted, and the search returns the empty
  vector after announcing the key as found. Every run that prints
  \<open>"No valid key found"\<close> returns the empty vector too, so the value returned does
  not tell the two outcomes apart.
\<close>

theorem empty_ciphertext_accepted:
  assumes "setup_ok w" and "attempt_ok w 0" and "charset \<noteq> []" and "1 \<le> mx"
  shows "(\<exists>r. brute_force_rc4_gpu w [] charset mx = Some r \<and>
            ret r = Inr [] \<and>
            dispatched (trace r) = [[hd charset]] \<and>
            Cout_key ''Decryption successful, key found: '' [hd charset] \<in> set (trace r)) \<and>
         (\<forall>w' enc' charset' mx' r'.
            brute_force_rc4_gpu w' enc' charset' mx' = Some r' \<and>
            Cout_text ''No valid key found'' \<in> set (trace r') \<longrightarrow> ret r' = Inr [])"
proof -
  have c: "charset_front charset = hd charset"
    using assms(3) by (cases charset) (simp_all add: charset_front_def)
  have ok: "attempt_ok w (attempts (initial_host w []))" using assms(2) by simp
  have v: "is_valid_plaintext (keystream_xor [hd charset] [])"
    by (simp add: keystream_xor_def is_valid_plaintext_def)
  define found where
    "found = Cout_key ''Decryption successful, key found: '' [hd charset]"
  define h' where "h' = (initial_host w [])\<lparr>events := events (initial_host w []) @
       [Create_keys 0 [hd charset], Set_arg 0 0, Set_arg 0 1, Set_arg 0 2, Set_arg 0 3,
        Set_arg 0 4, Enqueue 0 0, Read_back 0],
      device_out := [], decrypted_data := [], attempts := 1\<rparr>"
  define h'' where "h'' = emit [found, Cout_time (end_time w - start_time w)] h'"
  have x: "keystream_xor [hd charset] [] = []" by (simp add: keystream_xor_def)
  have a: "attempt w [] 1 [hd charset] (initial_host w []) = Return [] h''"
    using attempt_succeeds [OF ok, of "[]" 1 "[hd charset]"] v
    unfolding h''_def h'_def found_def x by (simp add: Let_def)
  have "length_loop (attempt w []) charset mx 1 (initial_host w []) = Some (Return [] h'')"
    using assms(4) a by (subst length_loop_step) (simp add: c)
  with assms(1) have run: "brute_force_rc4_gpu w [] charset mx =
      Some \<lparr>ret = Inr [], trace = events h''\<rparr>"
    by (simp add: brute_force_loop)
  have ev: "events h'' = events h' @ [found, Cout_time (end_time w - start_time w)]"
    by (simp add: h''_def emit_def)
  have "dispatched [found, Cout_time (end_time w - start_time w)] = []"
    by (simp add: found_def)
  then have disp: "dispatched (events h'') = [[hd charset]]"
    by (simp add: ev dispatched_append h'_def)
  have mem: "found \<in> set (events h'')" by (simp add: ev)
  let ?r = "\<lparr>ret = Inr [], trace = events h''\<rparr>"
  have "ret ?r = Inr []" and "trace ?r = events h''" by simp_all
  with run disp mem
  have "brute_force_rc4_gpu w [] charset mx = Some ?r \<and>
            ret ?r = Inr [] \<and>
            dispatched (trace ?r) = [[hd charset]] \<and>
            found \<in> set (trace ?r)"
    by (intro conjI) (simp_all only: not_False_eq_True)
  then have "\<exists>r. brute_force_rc4_gpu w [] charset mx = Some r \<and>
            ret r = Inr [] \<and>
            dispatched (trace r) = [[hd charset]] \<and>
            Cout_key ''Decryption successful, key found: '' [hd charset] \<in> set (trace r)"
    unfolding found_def by (rule exI)
  moreover have "\<forall>w' enc' charset' mx' r'.
            brute_force_rc4_gpu w' enc' charset' mx' = Some r' \<and>
            Cout_text ''No valid key found'' \<in> set (trace r') \<longrightarrow> ret r' = Inr []"
    using exhausted_returns_empty by blast
  ultimately show ?thesis by (rule conjI)
qed

theorem empty_ciphertext_accepted_witness:
  "\<exists>r. brute_force_rc4_gpu working_env [] [0x61, 0x62] 3 = Some r \<and>
       ret r = Inr [] \<and>
       dispatched (trace r) = [[0x61]] \<and>
       Cout_key ''Decryption successful, key found: '' [0x61] \<in> set (trace r)"
  using empty_ciphertext_accepted [of working_env "[0x61, 0x62]" 3] by simp

text \<open>
  Claim C6 asks that the key buffer of every attempt, accepted or rejected, be
  released after the read-back. The rejected attempt does so; the accepted one
  returns at line 168, before the \<open>clReleaseMemObject\<close> of line 171. With the key
  \<open>"a"\<close> and a working backend: the one-byte ciphertext \<open>0xD1\<close> decrypts to
  \<open>"h"\<close>, is accepted, and the run ends without a \<open>Release_keys\<close> event; the
  ciphertext \<open>0xB9\<close> decrypts to a null byte, is rejected, and \<open>Release_keys 0\<close>
  follows \<open>Read_back 0\<close>. Either way one kernel launch over one work item (the
  ciphertext's length) is issued.
\<close>

theorem accepted_attempt_keeps_keys_buffer:
  "brute_force_rc4_gpu working_env [0xD1] [0x61] 1 =
     Some \<lparr>ret = Inr [0x68],
           trace = [Setup_call GetPlatformIDs, Setup_call GetDeviceIDs, Setup_call CreateContext,
             Setup_call CreateCommandQueue, Setup_call CreateProgramWithSource,
             Setup_call BuildProgram, Setup_call CreateKernel,
             Setup_call CreateBuffer_encrypted, Setup_call CreateBuffer_decrypted,
             Create_keys 0 [0x61], Set_arg 0 0, Set_arg 0 1, Set_arg 0 2, Set_arg 0 3,
             Set_arg 0 4, Enqueue 0 1, Read_back 0,
             Cout_key ''Decryption successful, key found: '' [0x61], Cout_time 1]\<rparr> \<and>
   brute_force_rc4_gpu working_env [0xB9] [0x61] 1 =
     Some \<lparr>ret = Inr [],
           trace = [Setup_call GetPlatformIDs, Setup_call GetDeviceIDs, Setup_call CreateContext,
             Setup_call CreateCommandQueue, Setup_call CreateProgramWithSource,
             Setup_call BuildProgram, Setup_call CreateKernel,
             Setup_call CreateBuffer_encrypted, Setup_call CreateBuffer_decrypted,
             Create_keys 0 [0x61], Set_arg 0 0, Set_arg 0 1, Set_arg 0 2, Set_arg 0 3,
             Set_arg 0 4, Enqueue 0 1, Read_back 0, Release_keys 0,
             Cout_text ''No valid key found'', Cout_time 1]\<rparr>"
proof -
  have ok: "attempt_ok working_env (attempts (initial_host working_env [0xD1]))"
    by simp
  have ok': "attempt_ok working_env (attempts (initial_host working_env [0xB9]))"
    by simp
  have t: "end_time working_env - start_time working_env = 1"
    by (simp add: working_env_def)
  have a: "attempt working_env [0xD1] 1 [0x61] (initial_host working_env [0xD1]) =
      Return [0x68] (emit [Cout_key ''Decryption successful, key found: '' [0x61], Cout_time 1]
        ((initial_host working_env [0xD1])\<lparr>events := events (initial_host working_env [0xD1]) @
            [Create_keys 0 [0x61], Set_arg 0 0, Set_arg 0 1, Set_arg 0 2, Set_arg 0 3,
             Set_arg 0 4, Enqueue 0 1, Read_back 0],
           device_out := [0x68], decrypted_data := [0x68], attempts := 1\<rparr>))"
    using attempt_succeeds [OF ok, of "[0xD1]" 1 "[0x61]"]
    by (simp add: Let_def xor_a_h valid_h t)
  have b: "attempt working_env [0xB9] 1 [0x61] (initial_host working_env [0xB9]) =
      Continue (emit [Release_keys 0]
        ((initial_host working_env [0xB9])\<lparr>events := events (initial_host working_env [0xB9]) @
            [Create_keys 0 [0x61], Set_arg 0 0, Set_arg 0 1, Set_arg 0 2, Set_arg 0 3,
             Set_arg 0 4, Enqueue 0 1, Read_back 0],
           device_out := [0x00], decrypted_data := [0x00], attempts := 1\<rparr>))"
    using attempt_succeeds [OF ok', of "[0xB9]" 1 "[0x61]"]
    by (simp add: Let_def xor_a_0 valid_h)
  have la: "length_loop (attempt working_env [0xD1]) [0x61] 1 1 (initial_host working_env [0xD1]) =
      Some (attempt working_env [0xD1] 1 [0x61] (initial_host working_env [0xD1]))"
    by (simp add: length_loop_step a charset_front_def)
  have lb: "length_loop (attempt working_env [0xB9]) [0x61] 1 1 (initial_host working_env [0xB9]) =
      Some (attempt working_env [0xB9] 1 [0x61] (initial_host working_env [0xB9]))"
    by (simp add: length_loop_step b charset_front_def)
  show ?thesis
    unfolding brute_force_loop [OF working_env_ok(1)] la lb a b
    by (simp add: emit_def initial_host_def setup_events t)
qed

end
